theory Spec2Isabelle
  imports Complex_Main
begin

section \<open>Strings\<close>

text \<open>
  Python strings are modelled as \<open>string\<close> (lists of 8-bit characters). The only
  characters the program inspects are ASCII ones (the separators, the dot, the letters of
  the three extensions), so case folding and whitespace are modelled on ASCII.
\<close>

definition char_lower :: "char \<Rightarrow> char" where
  "char_lower c =
     (case map_of (zip ''ABCDEFGHIJKLMNOPQRSTUVWXYZ'' ''abcdefghijklmnopqrstuvwxyz'') c of
        Some d \<Rightarrow> d
      | None \<Rightarrow> c)"

definition lower :: "string \<Rightarrow> string" where
  "lower s = map char_lower s"

definition is_space :: "char \<Rightarrow> bool" where
  "is_space c = (c \<in> set [CHR 0x09, CHR 0x0A, CHR 0x0B, CHR 0x0C, CHR 0x0D,
                            CHR 0x1C, CHR 0x1D, CHR 0x1E, CHR 0x1F, CHR '' ''])"

definition strip :: "string \<Rightarrow> string" where
  "strip s = rev (dropWhile is_space (rev (dropWhile is_space s)))"

definition endswith :: "string \<Rightarrow> string \<Rightarrow> bool" where
  "endswith s e = (length e \<le> length s \<and> drop (length s - length e) s = e)"

fun contains :: "string \<Rightarrow> string \<Rightarrow> bool" where
  \<comment> \<open>\<open>k in s\<close> on Python strings: \<open>k\<close> occurs in \<open>s\<close> at some position\<close>
  "contains k [] = (k = [])"
| "contains k (x # xs) = (take (length k) (x # xs) = k \<or> contains k xs)"

fun rfind :: "char \<Rightarrow> string \<Rightarrow> nat option" where
  "rfind c [] = None"
| "rfind c (x # xs) =
     (case rfind c xs of
        Some i \<Rightarrow> Some (Suc i)
      | None \<Rightarrow> if x = c then Some 0 else None)"

definition digit_char :: "nat \<Rightarrow> char" where
  "digit_char d = ''0123456789'' ! d"

fun digits :: "nat \<Rightarrow> string" where
  "digits n = (if n < 10 then [digit_char n] else digits (n div 10) @ [digit_char (n mod 10)])"

declare digits.simps [simp del]

section \<open>Paths\<close>

text \<open>
  A \<open>pathlib.Path\<close> of the POSIX flavour: whether it is anchored at the file-system
  root, and its components.
\<close>

datatype path = Path (anchored: bool) (parts: "string list")

definition path_name :: "path \<Rightarrow> string" where
  "path_name p = (if parts p = [] then [] else last (parts p))"

definition path_suffix :: "path \<Rightarrow> string" where
  "path_suffix p =
     (let nm = path_name p in
      case rfind (CHR ''.'') nm of
        None \<Rightarrow> []
      | Some i \<Rightarrow> if 0 < i \<and> i < length nm - 1 then drop i nm else [])"

definition path_stem :: "path \<Rightarrow> string" where
  "path_stem p =
     (let nm = path_name p in
      case rfind (CHR ''.'') nm of
        None \<Rightarrow> nm
      | Some i \<Rightarrow> if 0 < i \<and> i < length nm - 1 then take i nm else nm)"

definition with_name :: "path \<Rightarrow> string \<Rightarrow> path" where
  \<comment> \<open>pathlib raises \<open>ValueError\<close> when the path has no name; the callers check that first\<close>
  "with_name p nm = Path (anchored p) (butlast (parts p) @ [nm])"

definition with_suffix :: "path \<Rightarrow> string \<Rightarrow> path" where
  \<comment> \<open>pathlib raises \<open>ValueError\<close> when the path has no name; the planner calls it
      only on a path whose suffix is not empty\<close>
  "with_suffix p s =
     (let nm = path_name p; old = path_suffix p in
      Path (anchored p)
        (butlast (parts p) @ [if old = [] then nm @ s else take (length nm - length old) nm @ s]))"

section \<open>The file system\<close>

datatype pyfloat = Finite rat | PosInf | NegInf | NaN

text \<open>
  What \<open>ffprobe\<close> answers for a file: it fails (\<open>CalledProcessError\<close>), it prints
  nothing (the empty dictionary), or it prints stream and format metadata.
  \<open>format_duration\<close> is what \<open>float(fmt.get("duration", "0"))\<close> evaluates to,
  \<open>None\<close> when it raises; \<open>stream_types\<close> holds \<open>st.get("codec_type")\<close> of every
  stream. A Python float is a rational number, an infinity or NaN.
\<close>

datatype probe =
    ProbeFailed
  | ProbeEmpty
  | ProbeInfo (format_duration: "pyfloat option") (stream_types: "string option list")

text \<open>
  A file-system entry. A regular file is abstracted to what the external tools observe of
  it: the probe's answer, whether a full decode pass succeeds, and whether \<open>os.remove\<close>
  succeeds on it.
\<close>

datatype node = Dir | File (probe_of: probe) (decodes: bool) (removable: bool)

type_synonym fs = "(path \<times> node) list"

definition fs_lookup :: "fs \<Rightarrow> path \<Rightarrow> node option" where
  "fs_lookup fs p = map_of fs p"

definition exists :: "fs \<Rightarrow> path \<Rightarrow> bool" where
  "exists fs p = (fs_lookup fs p \<noteq> None)"

definition is_file :: "fs \<Rightarrow> path \<Rightarrow> bool" where
  "is_file fs p = (case fs_lookup fs p of Some (File _ _ _) \<Rightarrow> True | _ \<Rightarrow> False)"


definition fs_delete :: "fs \<Rightarrow> path \<Rightarrow> fs" where
  "fs_delete fs p = filter (\<lambda>e. fst e \<noteq> p) fs"

definition fs_write :: "fs \<Rightarrow> path \<Rightarrow> node \<Rightarrow> fs" where
  "fs_write fs p n = (p, n) # fs_delete fs p"

section \<open>Naming allocator\<close>

datatype error = ValueError | IndexError | OSError | SystemExit int

definition cand_name :: "path \<Rightarrow> nat \<Rightarrow> string" where
  \<comment> \<open>\<open>f"{stem} ({n}){suf}"\<close>\<close>
  "cand_name target n = path_stem target @ '' ('' @ digits n @ '')'' @ path_suffix target"

definition cand :: "path \<Rightarrow> nat \<Rightarrow> path" where
  "cand target n = with_name target (cand_name target n)"

lemma digit_char_inj: "a < 10 \<Longrightarrow> b < 10 \<Longrightarrow> digit_char a = digit_char b \<Longrightarrow> a = b"
proof -
  assume a: "a < 10" and b: "b < 10" and e: "digit_char a = digit_char b"
  have d: "distinct ''0123456789''" by simp
  have "a < length ''0123456789''" "b < length ''0123456789''" using a b by simp_all
  with d e show "a = b" unfolding digit_char_def by (simp only: nth_eq_iff_index_eq)
qed

lemma digits_nonempty: "digits n \<noteq> []"
  by (subst digits.simps) simp

lemma digits_inj: "digits a = digits b \<Longrightarrow> a = b"
proof (induction a arbitrary: b rule: digits.induct)
  case (1 n)
  show ?case
  proof (cases "n < 10")
    case True
    have da: "digits n = [digit_char n]" using True by (subst digits.simps) simp
    show ?thesis
    proof (cases "b < 10")
      case bT: True
      have "digits b = [digit_char b]" using bT by (subst digits.simps) simp
      with da "1.prems" have "digit_char n = digit_char b" by simp
      with True bT show ?thesis by (rule digit_char_inj)
    next
      case bF: False
      have "digits b = digits (b div 10) @ [digit_char (b mod 10)]"
        using bF by (subst digits.simps) simp
      with da "1.prems" have "digits (b div 10) = []" by simp
      with digits_nonempty show ?thesis by blast
    qed
  next
    case False
    have da: "digits n = digits (n div 10) @ [digit_char (n mod 10)]"
      using False by (subst digits.simps) simp
    show ?thesis
    proof (cases "b < 10")
      case bT: True
      have "digits b = [digit_char b]" using bT by (subst digits.simps) simp
      with da "1.prems" have "digits (n div 10) = []" by simp
      with digits_nonempty show ?thesis by blast
    next
      case bF: False
      have db: "digits b = digits (b div 10) @ [digit_char (b mod 10)]"
        using bF by (subst digits.simps) simp
      from da db "1.prems" have e1: "digits (n div 10) = digits (b div 10)"
        and e2: "digit_char (n mod 10) = digit_char (b mod 10)" by simp_all
      from "1.IH" [OF False e1] have q: "n div 10 = b div 10" .
      have "n mod 10 = b mod 10" by (rule digit_char_inj [OF _ _ e2]) simp_all
      with q show ?thesis by (metis div_mult_mod_eq)
    qed
  qed
qed

lemma cand_inj: "cand t a = cand t b \<Longrightarrow> a = b"
  by (simp add: cand_def with_name_def cand_name_def digits_inj)

lemma finite_cands: "finite {m. exists fs (cand t m)}"
proof -
  have "{m. exists fs (cand t m)} \<subseteq> cand t -` (fst ` set fs)"
    by (auto simp: exists_def fs_lookup_def map_of_eq_None_iff)
  moreover have "finite (cand t -` (fst ` set fs))"
    by (rule finite_vimageI) (auto simp: inj_on_def dest: cand_inj)
  ultimately show ?thesis by (rule finite_subset)
qed

function uniq_loop :: "fs \<Rightarrow> path \<Rightarrow> nat \<Rightarrow> path" where
  "uniq_loop fs target n =
     (if \<not> exists fs (cand target n) then cand target n else uniq_loop fs target (Suc n))"
  by pat_completeness auto
termination
proof (relation "measure (\<lambda>(fs, t, n). card {m. n \<le> m \<and> exists fs (cand t m)})")
  show "wf (measure (\<lambda>(fs, t, n). card {m. n \<le> m \<and> exists fs (cand t m)}))" by simp
next
  fix fs :: fs and target :: path and n :: nat
  assume "\<not> \<not> exists fs (cand target n)"
  then have ex: "exists fs (cand target n)" by simp
  have fin: "finite {m. n \<le> m \<and> exists fs (cand target m)}"
    by (rule finite_subset [OF _ finite_cands [of fs target]]) auto
  have "n \<in> {m. n \<le> m \<and> exists fs (cand target m)}" using ex by simp
  moreover have "n \<notin> {m. Suc n \<le> m \<and> exists fs (cand target m)}" by simp
  moreover have "{m. Suc n \<le> m \<and> exists fs (cand target m)}
      \<subseteq> {m. n \<le> m \<and> exists fs (cand target m)}" by auto
  ultimately have "{m. Suc n \<le> m \<and> exists fs (cand target m)}
      \<subset> {m. n \<le> m \<and> exists fs (cand target m)}" by blast
  with fin have "card {m. Suc n \<le> m \<and> exists fs (cand target m)}
      < card {m. n \<le> m \<and> exists fs (cand target m)}"
    by (rule psubset_card_mono)
  then show "((fs, target, Suc n), (fs, target, n))
      \<in> measure (\<lambda>(fs, t, n). card {m. n \<le> m \<and> exists fs (cand t m)})"
    by simp
qed

declare uniq_loop.simps [simp del]

definition unique_target_path :: "fs \<Rightarrow> path \<Rightarrow> error + path" where
  "unique_target_path fs target =
     (if \<not> exists fs target then Inr target
      else if path_name target = [] then Inl ValueError
      else Inr (uniq_loop fs target 2))"

section \<open>Probing and the decode test\<close>

definition MUSIC_EXTS :: "string set" where
  "MUSIC_EXTS = {''.flac'', ''.m4a'', ''.mp4''}"

definition M4A_EXTS :: "string set" where
  "M4A_EXTS = {''.m4a'', ''.mp4''}"

definition FLAC_EXTS :: "string set" where
  "FLAC_EXTS = {''.flac''}"

definition ffprobe_json :: "fs \<Rightarrow> path \<Rightarrow> probe" where
  \<comment> \<open>\<open>ProbeFailed\<close> is the \<open>None\<close> returned on \<open>CalledProcessError\<close>, also the
      answer for a path that is missing or a directory; what the tool prints is taken to
      be well-formed JSON\<close>
  "ffprobe_json fs p = (case fs_lookup fs p of Some (File pr _ _) \<Rightarrow> pr | _ \<Rightarrow> ProbeFailed)"

definition ffmpeg_decode_test :: "fs \<Rightarrow> path \<Rightarrow> bool" where
  \<comment> \<open>the \<open>ok\<close> component; the captured diagnostics are not used by the planner\<close>
  "ffmpeg_decode_test fs p = (case fs_lookup fs p of Some (File _ d _) \<Rightarrow> d | _ \<Rightarrow> False)"

fun float_gt :: "pyfloat \<Rightarrow> rat \<Rightarrow> bool" where
  "float_gt (Finite r) c = (c < r)"
| "float_gt PosInf c = True"
| "float_gt NegInf c = False"
| "float_gt NaN c = False"

definition verify_audio_ok :: "fs \<Rightarrow> path \<Rightarrow> bool" where
  "verify_audio_ok fs p =
     (case ffprobe_json fs p of
        ProbeFailed \<Rightarrow> False
      | ProbeEmpty \<Rightarrow> False
      | ProbeInfo d sts \<Rightarrow>
          (let dur = (case d of None \<Rightarrow> Finite 0 | Some x \<Rightarrow> x);
               has_stream = (\<exists>st \<in> set sts. st = Some ''audio'')
           in has_stream \<and> float_gt dur (1 / 2)))"

section \<open>Planning\<close>

fun join_with :: "string \<Rightarrow> string list \<Rightarrow> string" where
  "join_with sep [] = []"
| "join_with sep [x] = x"
| "join_with sep (x # y # ys) = x @ sep @ join_with sep (y # ys)"

definition str_of :: "path \<Rightarrow> string" where
  \<comment> \<open>\<open>str(path)\<close>\<close>
  "str_of p =
     (if parts p = [] then (if anchored p then ''/'' else ''.'')
      else (if anchored p then ''/'' else []) @ join_with ''/'' (parts p))"

record action =
  kind :: string
  src :: path
  dst :: "path option"
  cmd :: "string list"
  note_text :: string

definition build_ffmpeg_cmd_convert_to_flac :: "path \<Rightarrow> path \<Rightarrow> string list" where
  "build_ffmpeg_cmd_convert_to_flac s d =
     [''ffmpeg'', ''-hide_banner'', ''-nostdin'', ''-y'',
      ''-i'', str_of s,
      ''-map_metadata'', ''0'',
      ''-c:a'', ''flac'', ''-compression_level'', ''8'',
      ''-map'', ''0:a:0'',
      str_of d]"

definition note_convert :: string where
  \<comment> \<open>\<open>m4a\<close>, a rightwards arrow (three bytes of UTF-8), \<open>flac\<close>\<close>
  "note_convert = ''m4a'' @ [CHR 0xE2, CHR 0x86, CHR 0x92] @ ''flac''"

definition planned_dst :: "fs \<Rightarrow> path \<Rightarrow> error + path" where
  \<comment> \<open>\<open>dst = src.with_suffix(".flac"); if dst.exists(): dst = unique_target_path(dst)\<close>\<close>
  "planned_dst fs s =
     (let d = with_suffix s ''.flac'' in
      if exists fs d then unique_target_path fs d else Inr d)"

definition decide_actions_for_path :: "fs \<Rightarrow> path \<Rightarrow> error + action list" where
  "decide_actions_for_path fs s =
     (let ext = lower (path_suffix s) in
      if ext \<in> M4A_EXTS then
        (case planned_dst fs s of
           Inl e \<Rightarrow> Inl e
         | Inr d \<Rightarrow>
             Inr [\<lparr>kind = ''convert_m4a'', src = s, dst = Some d,
                   cmd = build_ffmpeg_cmd_convert_to_flac s d, note_text = note_convert\<rparr>])
      else if ext \<in> FLAC_EXTS then
        (if ffmpeg_decode_test fs s then Inr []
         else
           (case planned_dst fs s of
              Inl e \<Rightarrow> Inl e
            | Inr d \<Rightarrow>
                Inr [\<lparr>kind = ''repair_flac'', src = s, dst = Some d,
                      cmd = build_ffmpeg_cmd_convert_to_flac s d, note_text = ''re-encode flac''\<rparr>]))
      else Inr [])"

section \<open>Candidate extraction\<close>

text \<open>
  A sheet of the report, as the report reader hands it over: its columns in order, each
  with the text of its header and its cells. A cell is \<open>None\<close> when it is missing (NaN)
  and otherwise holds the text that \<open>astype(str)\<close> gives it.
\<close>

type_synonym dataframe = "(string \<times> string option list) list"

definition PATHLIKE_COL_KEYWORDS :: "string list" where
  "PATHLIKE_COL_KEYWORDS =
     [''path'', ''file'', ''location'', ''filename'', ''track file'', ''file path'',
      ''source'', ''fullpath'', ''url'']"

definition find_path_columns :: "dataframe \<Rightarrow> (string \<times> string option list) list" where
  "find_path_columns df =
     filter (\<lambda>c. \<exists>k \<in> set PATHLIKE_COL_KEYWORDS. contains k (lower (strip (fst c)))) df"

definition looks_like_path :: "string \<Rightarrow> bool" where
  "looks_like_path s =
     (if length s < 5 then False
      else (let s2 = lower (strip s) in \<exists>ext \<in> MUSIC_EXTS. endswith s2 ext))"

fun unique_preserve_order :: "string list \<Rightarrow> string list \<Rightarrow> string list" where
  "unique_preserve_order seen [] = []"
| "unique_preserve_order seen (p # ps) =
     (if p \<in> set seen then unique_preserve_order seen ps
      else p # unique_preserve_order (p # seen) ps)"

definition dropna :: "string option list \<Rightarrow> string list" where
  "dropna cells = concat (map (\<lambda>c. case c of None \<Rightarrow> [] | Some v \<Rightarrow> [v]) cells)"

definition ravel :: "dataframe \<Rightarrow> string list" where
  \<comment> \<open>\<open>df.astype(str).fillna("").values.ravel()\<close>: all cells, row by row; a missing
      cell has become the text \<open>nan\<close>\<close>
  "ravel df =
     map (\<lambda>c. case c of None \<Rightarrow> ''nan'' | Some v \<Rightarrow> v) (concat (transpose (map snd df)))"

definition extract_candidate_paths :: "dataframe \<Rightarrow> string list" where
  "extract_candidate_paths df =
     (let paths = concat (map (\<lambda>col. map strip (filter looks_like_path (dropna (snd col))))
                     (find_path_columns df));
          paths' = (if paths = [] then filter looks_like_path (map strip (ravel df)) else paths)
      in unique_preserve_order [] paths')"

section \<open>Path resolution\<close>

fun split_on :: "char \<Rightarrow> string \<Rightarrow> string list" where
  "split_on c [] = [[]]"
| "split_on c (x # xs) =
     (if x = c then [] # split_on c xs
      else (case split_on c xs of [] \<Rightarrow> [[x]] | w # ws \<Rightarrow> (x # w) # ws))"

definition Path_of :: "string \<Rightarrow> path" where
  \<comment> \<open>\<open>Path(s)\<close>: components are separated by \<open>/\<close>; empty components and \<open>.\<close> are
      dropped; the path is absolute when the text starts with \<open>/\<close>. The root \<open>//\<close> of
      exactly two leading slashes and the Windows flavour are not modelled\<close>
  "Path_of s =
     Path (s \<noteq> [] \<and> hd s = CHR ''/'')
       (filter (\<lambda>c. c \<noteq> [] \<and> c \<noteq> ''.'') (split_on (CHR ''/'') s))"

definition path_join :: "path \<Rightarrow> string \<Rightarrow> path" where
  \<comment> \<open>\<open>root / s\<close>\<close>
  "path_join rootdir s =
     (let q = Path_of s in
      if anchored q then q else Path (anchored rootdir) (parts rootdir @ parts q))"

definition normalize_to_root :: "string \<Rightarrow> path \<Rightarrow> path" where
  "normalize_to_root s rootdir =
     (let p = Path_of s in if \<not> anchored p then path_join rootdir s else p)"

text \<open>
  \<open>Path.resolve\<close> follows symbolic links and makes the path absolute; it is a parameter
  of the model, \<open>None\<close> when it raises. \<open>relative_to\<close> succeeds when the root's
  components are a prefix of the child's.
\<close>

type_synonym realpath = "path \<Rightarrow> path option"

definition is_under :: "realpath \<Rightarrow> path \<Rightarrow> path \<Rightarrow> bool" where
  "is_under rp child rootdir =
     (case rp child of
        None \<Rightarrow> False
      | Some c \<Rightarrow>
          (case rp rootdir of
             None \<Rightarrow> False
           | Some r \<Rightarrow>
               anchored c = anchored r \<and> take (length (parts r)) (parts c) = parts r))"

text \<open>
  \<open>Path.exists\<close>, \<open>Path.is_file\<close> and \<open>Path.is_dir\<close> raise \<open>OSError\<close> when the
  lookup fails for another reason than a missing file: a name that is too long, a
  directory that cannot be searched. Where the program looks up a path that comes from
  the command line or from the report, the paths on which the lookup fails are a
  parameter of the model, and the exception, which nothing catches, is a result.
  The lookups of a destination, which is a sibling of a file that was found, and of a file
  that was found already are taken to succeed: the planner and the engine use
  \<open>exists\<close> as it is.
\<close>

type_synonym stat_fails = "path \<Rightarrow> bool"

definition stat_exists :: "stat_fails \<Rightarrow> fs \<Rightarrow> path \<Rightarrow> error + bool" where
  "stat_exists sf fs p = (if sf p then Inl OSError else Inr (exists fs p))"

definition stat_is_file :: "stat_fails \<Rightarrow> fs \<Rightarrow> path \<Rightarrow> error + bool" where
  "stat_is_file sf fs p = (if sf p then Inl OSError else Inr (is_file fs p))"


definition is_existing_file :: "stat_fails \<Rightarrow> fs \<Rightarrow> path \<Rightarrow> error + bool" where
  \<comment> \<open>\<open>p.exists() and p.is_file()\<close>: the second lookup is made only when the first
      answers \<open>True\<close>\<close>
  "is_existing_file sf fs p =
     (case stat_exists sf fs p of
        Inl e \<Rightarrow> Inl e
      | Inr ex \<Rightarrow> if ex then stat_is_file sf fs p else Inr False)"

definition resolve_candidate ::
  "stat_fails \<Rightarrow> realpath \<Rightarrow> fs \<Rightarrow> path \<Rightarrow> string \<Rightarrow> error + path option" where
  \<comment> \<open>the two resolution routes in the loop body of \<open>plan_from_xlsx\<close>\<close>
  "resolve_candidate sf rp fs rootdir raw =
     (let p_try = normalize_to_root raw rootdir in
      case is_existing_file sf fs p_try of
        Inl e \<Rightarrow> Inl e
      | Inr f1 \<Rightarrow>
          (let resolved = (if f1 \<and> is_under rp p_try rootdir then Some p_try else None)
           in case resolved of
                Some p \<Rightarrow> Inr (Some p)
              | None \<Rightarrow>
                  (let base = path_name (Path_of raw); p2 = path_join rootdir base in
                   case is_existing_file sf fs p2 of
                     Inl e \<Rightarrow> Inl e
                   | Inr f2 \<Rightarrow> if f2 then Inr (Some p2) else Inr None)))"

type_synonym plan_row = "string \<times> path option \<times> string"

definition plan_candidate ::
  "stat_fails \<Rightarrow> realpath \<Rightarrow> fs \<Rightarrow> path \<Rightarrow> string \<Rightarrow> error + (plan_row \<times> action list)" where
  \<comment> \<open>the rest of the loop body: the row and the actions for one candidate\<close>
  "plan_candidate sf rp fs rootdir raw =
     (case resolve_candidate sf rp fs rootdir raw of
        Inl e \<Rightarrow> Inl e
      | Inr None \<Rightarrow> Inr ((raw, None, ''NOT FOUND''), [])
      | Inr (Some resolved) \<Rightarrow>
          if lower (path_suffix resolved) \<notin> MUSIC_EXTS then
            Inr ((raw, Some resolved,
                  ''SKIP (unsupported ext: '' @ path_suffix resolved @ '')''), [])
          else
            (case decide_actions_for_path fs resolved of
               Inl e \<Rightarrow> Inl e
             | Inr acts \<Rightarrow>
                 if acts = [] then Inr ((raw, Some resolved, ''OK (no fix required)''), [])
                 else Inr ((raw, Some resolved,
                            ''PLAN: '' @ join_with '', '' (map kind acts)), acts)))"

fun plan_loop ::
  "stat_fails \<Rightarrow> realpath \<Rightarrow> fs \<Rightarrow> path \<Rightarrow> string list \<Rightarrow> string list \<Rightarrow> plan_row list
     \<Rightarrow> action list \<Rightarrow> error + (plan_row list \<times> action list)" where
  "plan_loop sf rp fs rootdir seen [] rows actions = Inr (rows, actions)"
| "plan_loop sf rp fs rootdir seen (raw # rest) rows actions =
     (if raw \<in> set seen then plan_loop sf rp fs rootdir seen rest rows actions
      else
        (case plan_candidate sf rp fs rootdir raw of
           Inl e \<Rightarrow> Inl e
         | Inr (row, acts) \<Rightarrow>
             plan_loop sf rp fs rootdir (raw # seen) rest (rows @ [row]) (actions @ acts)))"

text \<open>
  The report reader is a parameter: the sheets of the file at a path, \<open>None\<close> when
  reading raises.
\<close>

type_synonym reader = "path \<Rightarrow> dataframe list option"

definition read_all_sheets :: "reader \<Rightarrow> path \<Rightarrow> error + dataframe list" where
  "read_all_sheets rd xlsx =
     (case rd xlsx of None \<Rightarrow> Inl (SystemExit 1) | Some sheets \<Rightarrow> Inr sheets)"

definition plan_from_xlsx ::
  "reader \<Rightarrow> stat_fails \<Rightarrow> realpath \<Rightarrow> fs \<Rightarrow> path \<Rightarrow> path
     \<Rightarrow> error + (plan_row list \<times> action list)" where
  "plan_from_xlsx rd sf rp fs xlsx rootdir =
     (case read_all_sheets rd xlsx of
        Inl e \<Rightarrow> Inl e
      | Inr sheets \<Rightarrow>
          plan_loop sf rp fs rootdir [] (concat (map extract_candidate_paths sheets)) [] [])"

section \<open>Execution\<close>

text \<open>
  The external transcoder is a parameter: from the file system at launch and the command
  line, its exit code and the file system it leaves behind.
  \<open>run_ffmpeg_with_progress\<close> probes the source's duration and prints progress around
  the call; neither changes the file system nor the exit code it returns.
\<close>

type_synonym transcoder = "fs \<Rightarrow> string list \<Rightarrow> int \<times> fs"

definition run_ffmpeg_with_progress :: "transcoder \<Rightarrow> fs \<Rightarrow> string list \<Rightarrow> int \<times> fs" where
  "run_ffmpeg_with_progress T fs c = T fs c"

definition safe_remove :: "fs \<Rightarrow> path \<Rightarrow> fs" where
  \<comment> \<open>\<open>os.remove\<close> raises on a missing path, on a directory and on a file that cannot be
      removed; the exception is caught and only a warning is printed\<close>
  "safe_remove fs p =
     (case fs_lookup fs p of
        Some (File _ _ True) \<Rightarrow> fs_delete fs p
      | _ \<Rightarrow> fs)"

text \<open>
  The state of \<open>apply_actions\<close>: the file system, the two counters, the rows written to
  the audit log so far (the log is kept apart from the modelled file system), and, as a
  record of the run, every transcoder launch with its command line and the file system
  it started on.
\<close>

record estate =
  files :: fs
  success :: nat
  errors :: nat
  audit :: "string list list"
  launched :: "(string list \<times> fs) list"

definition AUDIT_HEADER :: "string list" where
  "AUDIT_HEADER = [''kind'', ''source'', ''destination'', ''status'', ''note'']"

definition dst_text :: "path option \<Rightarrow> string" where
  \<comment> \<open>\<open>str(dst) if dst else ""\<close>\<close>
  "dst_text d = (case d of None \<Rightarrow> [] | Some p \<Rightarrow> str_of p)"

definition audit_row :: "action \<Rightarrow> path option \<Rightarrow> string \<Rightarrow> string list" where
  "audit_row a d status = [kind a, str_of (src a), dst_text d, status, note_text a]"

definition realloc_dst :: "fs \<Rightarrow> action \<Rightarrow> error + path option" where
  \<comment> \<open>\<open>dst = unique_target_path(a.dst) if a.dst else None\<close>\<close>
  "realloc_dst fs a =
     (case dst a of
        None \<Rightarrow> Inr None
      | Some d \<Rightarrow> (case unique_target_path fs d of Inl e \<Rightarrow> Inl e | Inr d' \<Rightarrow> Inr (Some d')))"

definition final_cmd :: "action \<Rightarrow> path option \<Rightarrow> error + string list" where
  \<comment> \<open>\<open>a.cmd[-1]\<close> raises \<open>IndexError\<close> on an empty command\<close>
  "final_cmd a d =
     (case d of
        None \<Rightarrow> Inr (cmd a)
      | Some p \<Rightarrow>
          if cmd a = [] then Inl IndexError
          else if str_of p \<noteq> last (cmd a) then Inr (butlast (cmd a) @ [str_of p])
          else Inr (cmd a))"

definition remove_partial :: "fs \<Rightarrow> path option \<Rightarrow> fs" where
  \<comment> \<open>\<open>if dst and dst.exists(): safe_remove(dst)\<close>\<close>
  "remove_partial fs d =
     (case d of None \<Rightarrow> fs | Some p \<Rightarrow> if exists fs p then safe_remove fs p else fs)"

definition output_ok :: "fs \<Rightarrow> path option \<Rightarrow> bool" where
  \<comment> \<open>the negation of \<open>not dst or not dst.exists() or not verify_audio_ok(dst)\<close>\<close>
  "output_ok fs d = (case d of None \<Rightarrow> False | Some p \<Rightarrow> exists fs p \<and> verify_audio_ok fs p)"

definition conclude ::
  "estate \<Rightarrow> action \<Rightarrow> path option \<Rightarrow> string list \<Rightarrow> int \<Rightarrow> fs \<Rightarrow> estate" where
  \<comment> \<open>the loop body from the return of the transcoder on: \<open>c\<close> is the command line
      it was launched with, \<open>rc\<close> its exit code, \<open>fs1\<close> the file system it left\<close>
  "conclude st a d c rc fs1 =
     (let st1 = st\<lparr>launched := launched st @ [(c, files st)]\<rparr> in
      if rc \<noteq> 0 then
        st1\<lparr>audit := audit st @ [audit_row a d ''ERROR''],
            errors := errors st + 1,
            files := remove_partial fs1 d\<rparr>
      else if \<not> output_ok fs1 d then
        st1\<lparr>audit := audit st @ [audit_row a d ''ERROR: verify''],
            errors := errors st + 1,
            files := remove_partial fs1 d\<rparr>
      else
        st1\<lparr>files := safe_remove fs1 (src a),
            audit := audit st @ [audit_row a d ''OK''],
            success := success st + 1\<rparr>)"

definition execute_action :: "transcoder \<Rightarrow> bool \<Rightarrow> estate \<Rightarrow> action \<Rightarrow> error + estate" where
  \<comment> \<open>the body of the loop of \<open>apply_actions\<close>\<close>
  "execute_action T preview st a =
     (if kind a \<notin> {''convert_m4a'', ''repair_flac''} then Inr st
      else
        (case realloc_dst (files st) a of
           Inl e \<Rightarrow> Inl e
         | Inr d \<Rightarrow>
             if preview then Inr (st\<lparr>audit := audit st @ [audit_row a d ''PREVIEW'']\<rparr>)
             else
               (case final_cmd a d of
                  Inl e \<Rightarrow> Inl e
                | Inr c \<Rightarrow>
                    (let (rc, fs1) = run_ffmpeg_with_progress T (files st) c
                     in Inr (conclude st a d c rc fs1)))))"

fun run_actions :: "transcoder \<Rightarrow> bool \<Rightarrow> estate \<Rightarrow> action list \<Rightarrow> error + estate" where
  "run_actions T preview st [] = Inr st"
| "run_actions T preview st (a # rest) =
     (case execute_action T preview st a of
        Inl e \<Rightarrow> Inl e
      | Inr st' \<Rightarrow> run_actions T preview st' rest)"

definition initial_state :: "fs \<Rightarrow> estate" where
  "initial_state fs =
     \<lparr>files = fs, success = 0, errors = 0, audit = [AUDIT_HEADER], launched = []\<rparr>"

definition apply_actions :: "transcoder \<Rightarrow> fs \<Rightarrow> action list \<Rightarrow> bool \<Rightarrow> error + estate" where
  \<comment> \<open>the source returns the two counters; the model returns the whole final state\<close>
  "apply_actions T fs actions preview = run_actions T preview (initial_state fs) actions"

section \<open>Command line\<close>




section \<open>Well-formed actions\<close>

definition wf_action :: "action \<Rightarrow> bool" where
  \<comment> \<open>what every action built by the planner satisfies: one of the two kinds, a
      destination with a final component, a command line that is not empty\<close>
  "wf_action a =
     (kind a \<in> {''convert_m4a'', ''repair_flac''}
      \<and> (case dst a of None \<Rightarrow> False | Some d \<Rightarrow> path_name d \<noteq> [])
      \<and> cmd a \<noteq> [])"

definition last_status :: "estate \<Rightarrow> string" where
  \<comment> \<open>the status column of the last row of the audit log\<close>
  "last_status st = last (audit st) ! 3"

definition preview_row :: "fs \<Rightarrow> action \<Rightarrow> string list" where
  \<comment> \<open>the row Preview mode writes for an action: the destination is the one the
      allocator gives on the file system as it is\<close>
  "preview_row fs a =
     audit_row a (case realloc_dst fs a of Inr d \<Rightarrow> d | Inl e \<Rightarrow> None) ''PREVIEW''"


definition can_remove :: "fs \<Rightarrow> path \<Rightarrow> bool" where
  \<comment> \<open>\<open>os.remove\<close> succeeds on the path\<close>
  "can_remove fs p = (case fs_lookup fs p of Some (File _ _ r) \<Rightarrow> r | _ \<Rightarrow> False)"

definition launch_cmd :: "fs \<Rightarrow> action \<Rightarrow> string list" where
  \<comment> \<open>the command line an action is launched with on a file system (empty when the
      loop body raises before the launch)\<close>
  "launch_cmd fs a =
     (case realloc_dst fs a of
        Inl e \<Rightarrow> []
      | Inr d \<Rightarrow> (case final_cmd a d of Inl e \<Rightarrow> [] | Inr c \<Rightarrow> c))"

section \<open>Example inputs\<close>



definition ex_root :: path where
  "ex_root = Path True [''r'']"

definition ex_src :: path where
  "ex_src = Path True [''r'', ''t.m4a'']"

definition ex_dst :: path where
  "ex_dst = Path True [''r'', ''t.flac'']"

definition good_probe :: probe where
  "good_probe = ProbeInfo (Some (Finite 200)) [Some ''audio'']"

definition stub_probe :: probe where
  \<comment> \<open>a truncated output: a quarter of a second of audio\<close>
  "stub_probe = ProbeInfo (Some (Finite (1 / 4))) [Some ''audio'']"

definition ex_fs :: fs where
  "ex_fs = [(ex_root, Dir), (ex_src, File good_probe True True)]"

definition ex_action :: action where
  "ex_action =
     \<lparr>kind = ''convert_m4a'', src = ex_src, dst = Some ex_dst,
      cmd = build_ffmpeg_cmd_convert_to_flac ex_src ex_dst, note_text = note_convert\<rparr>"

definition T_good :: transcoder where
  \<comment> \<open>a transcoder that writes a sound file at its output argument\<close>
  "T_good fs c = (0, fs_write fs (Path_of (last c)) (File good_probe True True))"

definition T_truncated :: transcoder where
  \<comment> \<open>one that exits with 0 and leaves a truncated file\<close>
  "T_truncated fs c = (0, fs_write fs (Path_of (last c)) (File stub_probe False True))"

definition T_fail :: transcoder where
  \<comment> \<open>one that fails and leaves a partial file\<close>
  "T_fail fs c = (1, fs_write fs (Path_of (last c)) (File ProbeFailed False True))"

definition T_fail_locked :: transcoder where
  \<comment> \<open>one that fails and leaves a partial file that cannot be removed\<close>
  "T_fail_locked fs c = (1, fs_write fs (Path_of (last c)) (File ProbeFailed False False))"

definition ex_fs_taken :: fs where
  \<comment> \<open>the planned destination has appeared since planning\<close>
  "ex_fs_taken = ex_fs @ [(ex_dst, File good_probe True True)]"

definition ex_fs_locked :: fs where
  \<comment> \<open>the source cannot be removed\<close>
  "ex_fs_locked = [(ex_root, Dir), (ex_src, File good_probe True False)]"





definition sf_never :: stat_fails where
  \<comment> \<open>every lookup answers\<close>
  "sf_never p = False"

definition ex_locked :: path where
  \<comment> \<open>a path below a directory that cannot be searched\<close>
  "ex_locked = Path True [''r'', ''locked'', ''t.m4a'']"

definition sf_locked :: stat_fails where
  "sf_locked p = (p = ex_locked)"



definition rp_id :: realpath where
  \<comment> \<open>a file system without symbolic links, all paths absolute\<close>
  "rp_id p = Some p"

definition ex_xlsx :: path where
  "ex_xlsx = Path True [''r'', ''skipped.xlsx'']"

definition ex_sheet :: dataframe where
  "ex_sheet = [(''Title'', [Some ''Song'']), (''File Path'', [Some '' t.m4a ''])]"





definition ex_hidden :: path where
  \<comment> \<open>a file whose whole name is an extension\<close>
  "ex_hidden = Path True [''r'', ''.flac'']"

definition ex_sheet_hidden :: dataframe where
  "ex_sheet_hidden = [(''File'', [Some ''.flac''])]"

definition ex_reader_hidden :: reader where
  "ex_reader_hidden p = (if p = ex_xlsx then Some [ex_sheet_hidden] else None)"

definition ex_fs_hidden :: fs where
  "ex_fs_hidden =
     [(ex_root, Dir), (ex_hidden, File good_probe True True),
      (ex_xlsx, File ProbeFailed False True)]"

section \<open>Properties of the naming allocator\<close>

lemma uniq_loop_least:
  "\<exists>N\<ge>n. uniq_loop fs t n = cand t N \<and> \<not> exists fs (cand t N)
      \<and> (\<forall>M. n \<le> M \<and> M < N \<longrightarrow> exists fs (cand t M))"
proof (induction fs t n rule: uniq_loop.induct)
  case (1 fs target n)
  show ?case
  proof (cases "exists fs (cand target n)")
    case False
    then have "uniq_loop fs target n = cand target n" by (subst uniq_loop.simps) simp
    with False show ?thesis by (intro exI [of _ n]) auto
  next
    case True
    then have e: "uniq_loop fs target n = uniq_loop fs target (Suc n)"
      by (subst uniq_loop.simps) simp
    from "1.IH" True obtain N where N: "Suc n \<le> N" "uniq_loop fs target (Suc n) = cand target N"
      "\<not> exists fs (cand target N)" "\<forall>M. Suc n \<le> M \<and> M < N \<longrightarrow> exists fs (cand target M)"
      by auto
    have "\<forall>M. n \<le> M \<and> M < N \<longrightarrow> exists fs (cand target M)"
    proof (intro allI impI)
      fix M assume "n \<le> M \<and> M < N"
      then show "exists fs (cand target M)" using True N(4) by (cases "M = n") auto
    qed
    with N e show ?thesis by (intro exI [of _ N]) auto
  qed
qed

lemma unique_target_path_fresh: "unique_target_path fs p = Inr q \<Longrightarrow> \<not> exists fs q"
  using uniq_loop_least [of 2 fs p]
  by (auto simp: unique_target_path_def split: if_splits)

lemma unique_target_path_absent: "\<not> exists fs p \<Longrightarrow> unique_target_path fs p = Inr p"
  by (simp add: unique_target_path_def)




section \<open>Properties of the execution engine\<close>

lemmas ex_defs = ex_root_def ex_src_def ex_dst_def good_probe_def stub_probe_def ex_fs_def
  ex_action_def T_good_def T_truncated_def T_fail_def T_fail_locked_def ex_fs_taken_def
  ex_fs_locked_def

lemmas engine_defs = conclude_def Let_def realloc_dst_def final_cmd_def remove_partial_def
  output_ok_def safe_remove_def audit_row_def dst_text_def
  initial_state_def verify_audio_ok_def ffprobe_json_def unique_target_path_def exists_def
  fs_lookup_def fs_write_def fs_delete_def build_ffmpeg_cmd_convert_to_flac_def str_of_def
  path_name_def

lemma execute_action_apply:
  assumes "kind a \<in> {''convert_m4a'', ''repair_flac''}"
    and "realloc_dst (files st) a = Inr d"
    and "final_cmd a d = Inr c"
  shows "execute_action T False st a
      = Inr (conclude st a d c (fst (T (files st) c)) (snd (T (files st) c)))"
  using assms
  by (simp add: execute_action_def run_ffmpeg_with_progress_def split_beta)

lemma launched_conclude: "launched (conclude st a d c rc fs1) = launched st @ [(c, files st)]"
  by (simp add: conclude_def Let_def)

lemma files_conclude:
  "files (conclude st a d c rc fs1)
     = (if rc \<noteq> 0 \<or> \<not> output_ok fs1 d then remove_partial fs1 d
        else safe_remove fs1 (src a))"
  by (simp add: conclude_def Let_def)

lemma audit_conclude:
  "audit (conclude st a d c rc fs1)
     = audit st @ [audit_row a d
         (if rc \<noteq> 0 then ''ERROR'' else if \<not> output_ok fs1 d then ''ERROR: verify''
          else ''OK'')]"
  by (simp add: conclude_def Let_def)

lemma errors_conclude:
  "errors (conclude st a d c rc fs1)
     = (if rc \<noteq> 0 \<or> \<not> output_ok fs1 d then errors st + 1 else errors st)"
  by (simp add: conclude_def Let_def)

lemma success_conclude:
  "success (conclude st a d c rc fs1)
     = (if rc \<noteq> 0 \<or> \<not> output_ok fs1 d then success st else success st + 1)"
  by (simp add: conclude_def Let_def)

lemmas conclude_fields = launched_conclude files_conclude audit_conclude errors_conclude
  success_conclude

lemma last_status_row: "audit st = xs @ [audit_row a d s] \<Longrightarrow> last_status st = s"
  by (simp add: last_status_def audit_row_def)

lemma wf_action_realloc:
  assumes "wf_action a"
  shows "\<exists>d d'. dst a = Some d \<and> unique_target_path fs d = Inr d'
    \<and> realloc_dst fs a = Inr (Some d') \<and> \<not> exists fs d'
    \<and> final_cmd a (Some d') = Inr (butlast (cmd a) @ [str_of d'])"
proof -
  from assms obtain d where d: "dst a = Some d" "path_name d \<noteq> []" and c: "cmd a \<noteq> []"
    by (auto simp: wf_action_def split: option.splits)
  from d(2) obtain d' where u: "unique_target_path fs d = Inr d'"
    by (cases "exists fs d") (auto simp: unique_target_path_def)
  then have f: "\<not> exists fs d'" by (rule unique_target_path_fresh)
  have "final_cmd a (Some d') = Inr (butlast (cmd a) @ [str_of d'])"
    using c by (auto simp: final_cmd_def)
  with d u f show ?thesis by (auto simp: realloc_dst_def)
qed

text \<open>
  C3. The verification predicate holds exactly when the probe answers with metadata, one
  of the reported streams is an audio stream, and the reported duration is strictly
  greater than half a second. In Apply mode, after a zero exit code of the transcoder, an
  output that is missing or fails the predicate gives the status \<open>ERROR: verify\<close>, and
  the action counts as an error, not as a success.
\<close>

theorem verify_audio_ok_decides:
  "(verify_audio_ok fs p \<longleftrightarrow>
      (\<exists>d sts. ffprobe_json fs p = ProbeInfo (Some d) sts \<and> Some ''audio'' \<in> set sts
         \<and> (d = PosInf \<or> (\<exists>r. d = Finite r \<and> 1 / 2 < r))))
   \<and> (kind a \<in> {''convert_m4a'', ''repair_flac''}
        \<and> realloc_dst (files st) a = Inr (Some q) \<and> final_cmd a (Some q) = Inr c
        \<and> T (files st) c = (0, fs1) \<and> (\<not> exists fs1 q \<or> \<not> verify_audio_ok fs1 q)
      \<longrightarrow> (\<exists>st'. execute_action T False st a = Inr st'
             \<and> last_status st' = ''ERROR: verify''
             \<and> success st' = success st \<and> errors st' = errors st + 1))"
proof (intro conjI impI)
  show "verify_audio_ok fs p \<longleftrightarrow>
      (\<exists>d sts. ffprobe_json fs p = ProbeInfo (Some d) sts \<and> Some ''audio'' \<in> set sts
         \<and> (d = PosInf \<or> (\<exists>r. d = Finite r \<and> 1 / 2 < r)))"
  proof (cases "ffprobe_json fs p")
    case (ProbeInfo d sts)
    show ?thesis
    proof (cases d)
      case None
      with ProbeInfo show ?thesis by (simp add: verify_audio_ok_def)
    next
      case (Some x)
      with ProbeInfo show ?thesis by (cases x) (auto simp: verify_audio_ok_def)
    qed
  qed (simp_all add: verify_audio_ok_def)
next
  assume h: "kind a \<in> {''convert_m4a'', ''repair_flac''}
        \<and> realloc_dst (files st) a = Inr (Some q) \<and> final_cmd a (Some q) = Inr c
        \<and> T (files st) c = (0, fs1) \<and> (\<not> exists fs1 q \<or> \<not> verify_audio_ok fs1 q)"
  then have bad: "\<not> output_ok fs1 (Some q)" by (auto simp: output_ok_def)
  from h have t: "fst (T (files st) c) = 0" "snd (T (files st) c) = fs1" by simp_all
  from h have "execute_action T False st a
      = Inr (conclude st a (Some q) c (fst (T (files st) c)) (snd (T (files st) c)))"
    by (intro execute_action_apply) simp_all
  then have e: "execute_action T False st a = Inr (conclude st a (Some q) c 0 fs1)"
    by (simp only: t)
  define st' where "st' = conclude st a (Some q) c 0 fs1"
  from bad have st': "execute_action T False st a = Inr st'"
    "audit st' = audit st @ [audit_row a (Some q) ''ERROR: verify'']"
    "errors st' = errors st + 1" "success st' = success st"
    using e by (simp_all add: st'_def conclude_fields)
  from st'(2) have "last_status st' = ''ERROR: verify''" by (rule last_status_row)
  with st' show "\<exists>st'. execute_action T False st a = Inr st'
             \<and> last_status st' = ''ERROR: verify''
             \<and> success st' = success st \<and> errors st' = errors st + 1"
    by blast
qed

theorem verify_audio_ok_decides_witness:
  "kind ex_action \<in> {''convert_m4a'', ''repair_flac''}
   \<and> realloc_dst (files (initial_state ex_fs)) ex_action = Inr (Some ex_dst)
   \<and> final_cmd ex_action (Some ex_dst) = Inr (cmd ex_action)
   \<and> T_truncated (files (initial_state ex_fs)) (cmd ex_action)
       = (0, fs_write ex_fs ex_dst (File stub_probe False True))
   \<and> \<not> verify_audio_ok (fs_write ex_fs ex_dst (File stub_probe False True)) ex_dst
   \<and> (\<exists>st'. execute_action T_truncated False (initial_state ex_fs) ex_action = Inr st'
         \<and> last_status st' = ''ERROR: verify'' \<and> success st' = 0 \<and> errors st' = 1)"
proof -
  have h1: "kind ex_action \<in> {''convert_m4a'', ''repair_flac''}" by (simp add: ex_defs)
  have h2: "realloc_dst (files (initial_state ex_fs)) ex_action = Inr (Some ex_dst)"
    by (simp add: ex_defs engine_defs)
  have h3: "final_cmd ex_action (Some ex_dst) = Inr (cmd ex_action)"
    by (simp add: ex_defs engine_defs)
  have h4: "T_truncated (files (initial_state ex_fs)) (cmd ex_action)
       = (0, fs_write ex_fs ex_dst (File stub_probe False True))"
    by (simp add: ex_defs engine_defs Path_of_def)
  have h5: "\<not> verify_audio_ok (fs_write ex_fs ex_dst (File stub_probe False True)) ex_dst"
    by (simp add: ex_defs engine_defs)
  from verify_audio_ok_decides [of ex_fs ex_src ex_action "initial_state ex_fs" ex_dst
      "cmd ex_action" T_truncated "fs_write ex_fs ex_dst (File stub_probe False True)"]
    h1 h2 h3 h4 h5
  have "\<exists>st'. execute_action T_truncated False (initial_state ex_fs) ex_action = Inr st'
         \<and> last_status st' = ''ERROR: verify''
         \<and> success st' = success (initial_state ex_fs)
         \<and> errors st' = errors (initial_state ex_fs) + 1"
    by blast
  then have "\<exists>st'. execute_action T_truncated False (initial_state ex_fs) ex_action = Inr st'
         \<and> last_status st' = ''ERROR: verify'' \<and> success st' = 0 \<and> errors st' = 1"
    by (simp add: initial_state_def)
  with h1 h2 h3 h4 h5 show ?thesis by blast
qed

lemma execute_action_preview:
  assumes "wf_action a"
  shows "execute_action T True st a = Inr (st\<lparr>audit := audit st @ [preview_row (files st) a]\<rparr>)"
proof -
  from wf_action_realloc [OF assms, of "files st"] obtain d'
    where "realloc_dst (files st) a = Inr (Some d')" by blast
  moreover from assms have "kind a \<in> {''convert_m4a'', ''repair_flac''}"
    by (simp add: wf_action_def)
  ultimately show ?thesis by (simp add: execute_action_def preview_row_def)
qed

lemma run_actions_preview:
  "\<forall>a\<in>set acts. wf_action a \<Longrightarrow>
   run_actions T True st acts = Inr (st\<lparr>audit := audit st @ map (preview_row (files st)) acts\<rparr>)"
proof (induction acts arbitrary: st)
  case Nil
  show ?case by simp
next
  case (Cons a acts)
  from Cons.prems have wa: "wf_action a" and rest: "\<forall>a\<in>set acts. wf_action a" by simp_all
  show ?case
    by (simp add: execute_action_preview [OF wa] Cons.IH [OF rest])
qed

text \<open>
  C8. In Preview mode the engine writes, after the header, exactly one audit row per
  planned action, each with the status \<open>PREVIEW\<close>; the file system it returns is the one
  it was given, the counters stay at zero, and the transcoder is never launched (so the
  result does not depend on it).
\<close>

theorem preview_no_mutation:
  assumes "\<forall>a\<in>set acts. wf_action a"
  shows "apply_actions T fs acts True
      = Inr \<lparr>files = fs, success = 0, errors = 0,
             audit = AUDIT_HEADER # map (preview_row fs) acts, launched = []\<rparr>
    \<and> (\<forall>a\<in>set acts. preview_row fs a ! 3 = ''PREVIEW'')"
  using assms
  by (simp add: apply_actions_def run_actions_preview initial_state_def preview_row_def
      audit_row_def)

theorem preview_no_mutation_witness:
  "wf_action ex_action
   \<and> apply_actions T_good ex_fs [ex_action] True
      = Inr \<lparr>files = ex_fs, success = 0, errors = 0,
             audit = [AUDIT_HEADER,
                      [''convert_m4a'', ''/r/t.m4a'', ''/r/t.flac'', ''PREVIEW'', note_convert]],
             launched = []\<rparr>"
proof -
  have h: "\<forall>a\<in>set [ex_action]. wf_action a"
    by (simp add: wf_action_def ex_defs path_name_def build_ffmpeg_cmd_convert_to_flac_def)
  have r: "preview_row ex_fs ex_action
      = [''convert_m4a'', ''/r/t.m4a'', ''/r/t.flac'', ''PREVIEW'', note_convert]"
    by (simp add: preview_row_def ex_defs engine_defs)
  from preview_no_mutation [OF h, of T_good ex_fs] r h show ?thesis by simp
qed

section \<open>Properties of the planner\<close>

lemma with_suffix_replaces:
  "path_suffix s \<noteq> [] \<Longrightarrow> with_suffix s e = with_name s (path_stem s @ e)"
  by (auto simp: with_suffix_def with_name_def path_suffix_def path_stem_def Let_def
      split: option.splits if_splits)

lemma path_name_with_name: "path_name (with_name s nm) = nm"
  by (simp add: path_name_def with_name_def)

lemma planned_dst_allocates: "planned_dst fs s = unique_target_path fs (with_suffix s ''.flac'')"
  by (simp add: planned_dst_def Let_def unique_target_path_absent)

lemma lower_nonempty: "lower x = y \<Longrightarrow> y \<noteq> [] \<Longrightarrow> x \<noteq> []"
  by (auto simp: lower_def)

lemma planned_dst_total:
  assumes "path_suffix s \<noteq> []"
  shows "\<exists>d. planned_dst fs s = Inr d
    \<and> unique_target_path fs (with_name s (path_stem s @ ''.flac'')) = Inr d
    \<and> (\<not> exists fs (with_name s (path_stem s @ ''.flac''))
         \<longrightarrow> d = with_name s (path_stem s @ ''.flac''))
    \<and> \<not> exists fs d \<and> path_name d \<noteq> []"
proof -
  let ?d0 = "with_name s (path_stem s @ ''.flac'')"
  have w: "with_suffix s ''.flac'' = ?d0" using assms by (rule with_suffix_replaces)
  have n: "path_name ?d0 \<noteq> []" by (simp add: path_name_with_name)
  show ?thesis
  proof (cases "exists fs ?d0")
    case False
    then have "unique_target_path fs ?d0 = Inr ?d0" by (rule unique_target_path_absent)
    with False n w show ?thesis by (simp add: planned_dst_allocates)
  next
    case True
    from uniq_loop_least [of 2 fs ?d0] obtain N where N: "uniq_loop fs ?d0 2 = cand ?d0 N"
      "\<not> exists fs (cand ?d0 N)" by blast
    have u: "unique_target_path fs ?d0 = Inr (cand ?d0 N)"
      using True n N(1) by (simp add: unique_target_path_def)
    have "path_name (cand ?d0 N) \<noteq> []"
      by (simp add: cand_def cand_name_def path_name_with_name)
    with u N(2) True w show ?thesis by (simp add: planned_dst_allocates)
  qed
qed



lemmas path_defs = path_name_def path_suffix_def path_stem_def with_name_def with_suffix_def
  lower_def char_lower_def


section \<open>Properties of path resolution\<close>

lemma split_on_nonempty: "split_on c s \<noteq> []"
  by (induction s) (auto split: list.splits)

lemma split_on_no_sep: "w \<in> set (split_on c s) \<Longrightarrow> c \<notin> set w"
proof (induction s arbitrary: w)
  case Nil
  then show ?case by simp
next
  case (Cons x xs)
  show ?case
  proof (cases "x = c")
    case True
    with Cons show ?thesis by auto
  next
    case False
    obtain v vs where vs: "split_on c xs = v # vs"
      using split_on_nonempty [of c xs] by (cases "split_on c xs") auto
    with False Cons.prems have "w = x # v \<or> w \<in> set vs" by simp
    then show ?thesis
    proof
      assume "w = x # v"
      moreover have "c \<notin> set v" using Cons.IH [of v] vs by simp
      ultimately show ?thesis using False by simp
    next
      assume "w \<in> set vs"
      then show ?thesis using Cons.IH [of w] vs by simp
    qed
  qed
qed

lemma split_on_single: "c \<notin> set w \<Longrightarrow> split_on c w = [w]"
  by (induction w) auto

lemma Path_of_component:
  assumes "b \<noteq> []" and "b \<noteq> ''.''" and "CHR ''/'' \<notin> set b"
  shows "Path_of b = Path False [b]"
proof -
  from assms(1,3) have "hd b \<noteq> CHR ''/''" by (cases b) auto
  with assms show ?thesis by (simp add: Path_of_def split_on_single)
qed

lemma path_name_Path_of:
  assumes "path_name (Path_of raw) \<noteq> []"
  shows "path_name (Path_of raw) \<noteq> ''.'' \<and> CHR ''/'' \<notin> set (path_name (Path_of raw))"
proof -
  let ?ps = "filter (\<lambda>c. c \<noteq> [] \<and> c \<noteq> ''.'') (split_on (CHR ''/'') raw)"
  have p: "parts (Path_of raw) = ?ps" by (simp add: Path_of_def)
  with assms have ne: "?ps \<noteq> []" by (auto simp: path_name_def)
  then have "last ?ps \<in> set ?ps" by (rule last_in_set)
  moreover have "path_name (Path_of raw) = last ?ps" using p ne by (simp add: path_name_def)
  ultimately show ?thesis by (auto dest: split_on_no_sep)
qed

lemma path_join_name:
  assumes "path_name (Path_of raw) \<noteq> []"
  shows "path_join rootdir (path_name (Path_of raw))
      = Path (anchored rootdir) (parts rootdir @ [path_name (Path_of raw)])"
  using assms path_name_Path_of [OF assms]
  by (simp add: path_join_def Path_of_component)

lemma is_existing_file_eq:
  "is_existing_file sf fs p
     = (if sf p then Inl OSError else Inr (exists fs p \<and> is_file fs p))"
  by (simp add: is_existing_file_def stat_exists_def stat_is_file_def)

lemma resolve_candidate_eq:
  "resolve_candidate sf rp fs rootdir raw =
     (if sf (normalize_to_root raw rootdir) then Inl OSError
      else if exists fs (normalize_to_root raw rootdir)
         \<and> is_file fs (normalize_to_root raw rootdir)
         \<and> is_under rp (normalize_to_root raw rootdir) rootdir
      then Inr (Some (normalize_to_root raw rootdir))
      else if sf (path_join rootdir (path_name (Path_of raw))) then Inl OSError
      else if exists fs (path_join rootdir (path_name (Path_of raw)))
         \<and> is_file fs (path_join rootdir (path_name (Path_of raw)))
      then Inr (Some (path_join rootdir (path_name (Path_of raw))))
      else Inr None)"
  by (simp add: resolve_candidate_def is_existing_file_eq Let_def)


lemmas resolve_defs = resolve_candidate_def is_existing_file_def stat_exists_def
  stat_is_file_def plan_candidate_def normalize_to_root_def
  path_join_def Path_of_def is_under_def exists_def is_file_def fs_lookup_def path_name_def
  rp_id_def sf_never_def sf_locked_def ex_locked_def Let_def



section \<open>Launches of the transcoder\<close>

lemma execute_action_wf:
  assumes "wf_action a"
  obtains d d' where "dst a = Some d" and "unique_target_path (files st) d = Inr d'"
    and "\<not> exists (files st) d'"
    and "execute_action T False st a
      = Inr (conclude st a (Some d') (butlast (cmd a) @ [str_of d'])
               (fst (T (files st) (butlast (cmd a) @ [str_of d'])))
               (snd (T (files st) (butlast (cmd a) @ [str_of d']))))"
proof -
  from wf_action_realloc [OF assms, of "files st"] obtain d d' where
    d: "dst a = Some d" "unique_target_path (files st) d = Inr d'"
      "realloc_dst (files st) a = Inr (Some d')" "\<not> exists (files st) d'"
      "final_cmd a (Some d') = Inr (butlast (cmd a) @ [str_of d'])" by blast
  from assms have k: "kind a \<in> {''convert_m4a'', ''repair_flac''}" by (simp add: wf_action_def)
  have "execute_action T False st a
      = Inr (conclude st a (Some d') (butlast (cmd a) @ [str_of d'])
               (fst (T (files st) (butlast (cmd a) @ [str_of d'])))
               (snd (T (files st) (butlast (cmd a) @ [str_of d']))))"
    using k d(3) d(5) by (rule execute_action_apply)
  with d(1,2,4) show thesis by (rule that)
qed




lemma wf_ex_action: "wf_action ex_action"
  by (simp add: wf_action_def ex_defs path_name_def build_ffmpeg_cmd_convert_to_flac_def)

lemmas run_defs = apply_actions_def execute_action_def run_ffmpeg_with_progress_def Path_of_def
  uniq_loop.simps cand_def cand_name_def with_name_def path_stem_def path_suffix_def
  digits.simps digit_char_def


section \<open>Commit and rollback\<close>

lemma fs_lookup_delete: "fs_lookup (fs_delete fs p) q = (if q = p then None else fs_lookup fs q)"
  by (induction fs) (auto simp: fs_lookup_def fs_delete_def)

lemma fs_lookup_safe_remove:
  "fs_lookup (safe_remove fs p) q
     = (if q = p \<and> can_remove fs p then None else fs_lookup fs q)"
  by (auto simp: safe_remove_def can_remove_def fs_lookup_delete
      split: option.splits node.splits bool.splits)

lemma fs_lookup_remove_partial:
  "fs_lookup (remove_partial fs (Some d)) q
     = (if q = d \<and> can_remove fs d then None else fs_lookup fs q)"
  by (auto simp: remove_partial_def fs_lookup_safe_remove exists_def can_remove_def)

lemma output_ok_cong:
  "fs_lookup fs p = fs_lookup fs' p \<Longrightarrow> output_ok fs (Some p) = output_ok fs' (Some p)"
  by (simp add: output_ok_def exists_def verify_audio_ok_def ffprobe_json_def)

lemma last_status_conclude:
  "last_status (conclude st a d c rc fs1)
     = (if rc \<noteq> 0 then ''ERROR'' else if \<not> output_ok fs1 d then ''ERROR: verify'' else ''OK'')"
  by (rule last_status_row) (rule audit_conclude)

text \<open>
  C1 (as amended). In Apply mode, for an action whose source is a regular file that the
  transcoder leaves as it is: when the outcome is not Success the source is still there,
  unchanged; when the outcome is Success the destination exists and passes verification,
  and the source is gone if \<open>os.remove\<close> succeeds on it and is still there if it does
  not. So the source is deleted only when the destination exists and passes
  verification, and whenever it is deleted the outcome is Success.
\<close>

theorem commit_safety:
  assumes "wf_action a"
    and "is_file (files st) (src a)"
    and "fs_lookup (snd (T (files st) (launch_cmd (files st) a))) (src a)
           = fs_lookup (files st) (src a)"
  shows "\<exists>st' d'. execute_action T False st a = Inr st'
    \<and> realloc_dst (files st) a = Inr (Some d')
    \<and> (last_status st' \<noteq> ''OK'' \<longrightarrow>
          fs_lookup (files st') (src a) = fs_lookup (files st) (src a))
    \<and> (last_status st' = ''OK'' \<longrightarrow>
          exists (files st') d' \<and> verify_audio_ok (files st') d'
          \<and> (can_remove (files st) (src a) \<longrightarrow> \<not> exists (files st') (src a))
          \<and> (\<not> can_remove (files st) (src a) \<longrightarrow>
                fs_lookup (files st') (src a) = fs_lookup (files st) (src a)))
    \<and> (\<not> exists (files st') (src a) \<longrightarrow> last_status st' = ''OK'')"
proof -
  from assms(1) obtain d d' where
    e: "dst a = Some d" "unique_target_path (files st) d = Inr d'" "\<not> exists (files st) d'"
      "execute_action T False st a
        = Inr (conclude st a (Some d') (butlast (cmd a) @ [str_of d'])
               (fst (T (files st) (butlast (cmd a) @ [str_of d'])))
               (snd (T (files st) (butlast (cmd a) @ [str_of d']))))"
    by (rule execute_action_wf)
  define c where "c = butlast (cmd a) @ [str_of d']"
  define rc where "rc = fst (T (files st) c)"
  define fs1 where "fs1 = snd (T (files st) c)"
  define st' where "st' = conclude st a (Some d') c rc fs1"
  have ex: "execute_action T False st a = Inr st'"
    using e(4) by (simp add: st'_def c_def rc_def fs1_def)
  have re: "realloc_dst (files st) a = Inr (Some d')"
    using e(1,2) by (simp add: realloc_dst_def)
  have src_ex: "exists (files st) (src a)"
    using assms(2) by (auto simp: is_file_def exists_def split: option.splits)
  with e(3) have ne: "src a \<noteq> d'" by auto
  have "final_cmd a (Some d') = Inr c"
    using wf_action_realloc [OF assms(1), of "files st"] e(1,2) by (auto simp: c_def)
  with re have "launch_cmd (files st) a = c" by (simp add: launch_cmd_def)
  with assms(3) have keep: "fs_lookup fs1 (src a) = fs_lookup (files st) (src a)"
    by (simp add: fs1_def)
  then have cr: "can_remove fs1 (src a) = can_remove (files st) (src a)"
    by (simp add: can_remove_def)
  have ls: "last_status st'
      = (if rc \<noteq> 0 then ''ERROR'' else if \<not> output_ok fs1 (Some d') then ''ERROR: verify''
         else ''OK'')"
    by (simp add: st'_def last_status_conclude)
  have fl: "files st'
      = (if rc \<noteq> 0 \<or> \<not> output_ok fs1 (Some d') then remove_partial fs1 (Some d')
         else safe_remove fs1 (src a))"
    by (simp add: st'_def files_conclude)
  have bad: "last_status st' \<noteq> ''OK'' \<longrightarrow>
      fs_lookup (files st') (src a) = fs_lookup (files st) (src a)"
    using ls fl ne keep by (auto simp: fs_lookup_remove_partial split: if_splits)
  have good: "last_status st' = ''OK'' \<longrightarrow>
          exists (files st') d' \<and> verify_audio_ok (files st') d'
          \<and> (can_remove (files st) (src a) \<longrightarrow> \<not> exists (files st') (src a))
          \<and> (\<not> can_remove (files st) (src a) \<longrightarrow>
                fs_lookup (files st') (src a) = fs_lookup (files st) (src a))"
  proof
    assume ok: "last_status st' = ''OK''"
    with ls have r: "rc = 0" "output_ok fs1 (Some d')" by (auto split: if_splits)
    with fl have f: "files st' = safe_remove fs1 (src a)" by simp
    have "fs_lookup (files st') d' = fs_lookup fs1 d'"
      using f ne by (simp add: fs_lookup_safe_remove)
    then have "output_ok (files st') (Some d')" using r(2) output_ok_cong by blast
    then have "exists (files st') d' \<and> verify_audio_ok (files st') d'"
      by (simp add: output_ok_def)
    moreover have "can_remove (files st) (src a) \<longrightarrow> \<not> exists (files st') (src a)"
      using f cr by (simp add: exists_def fs_lookup_safe_remove)
    moreover have "\<not> can_remove (files st) (src a) \<longrightarrow>
        fs_lookup (files st') (src a) = fs_lookup (files st) (src a)"
      using f cr keep by (simp add: fs_lookup_safe_remove)
    ultimately show "exists (files st') d' \<and> verify_audio_ok (files st') d'
          \<and> (can_remove (files st) (src a) \<longrightarrow> \<not> exists (files st') (src a))
          \<and> (\<not> can_remove (files st) (src a) \<longrightarrow>
                fs_lookup (files st') (src a) = fs_lookup (files st) (src a))"
      by blast
  qed
  have gone: "\<not> exists (files st') (src a) \<longrightarrow> last_status st' = ''OK''"
    using bad src_ex by (auto simp: exists_def)
  from ex re bad good gone show ?thesis by blast
qed


theorem commit_safety_witness:
  "wf_action ex_action \<and> is_file (files (initial_state ex_fs)) (src ex_action)
   \<and> fs_lookup (snd (T_good (files (initial_state ex_fs))
          (launch_cmd (files (initial_state ex_fs)) ex_action))) (src ex_action)
       = fs_lookup (files (initial_state ex_fs)) (src ex_action)
   \<and> (\<exists>st'. execute_action T_good False (initial_state ex_fs) ex_action = Inr st'
        \<and> last_status st' = ''OK'' \<and> \<not> exists (files st') (src ex_action)
        \<and> exists (files st') ex_dst \<and> verify_audio_ok (files st') ex_dst)"
proof -
  have h2: "is_file (files (initial_state ex_fs)) (src ex_action)"
    by (simp add: ex_defs engine_defs is_file_def)
  have h3: "fs_lookup (snd (T_good (files (initial_state ex_fs))
          (launch_cmd (files (initial_state ex_fs)) ex_action))) (src ex_action)
       = fs_lookup (files (initial_state ex_fs)) (src ex_action)"
    by (simp add: ex_defs engine_defs launch_cmd_def Path_of_def)
  from commit_safety [of ex_action "initial_state ex_fs" T_good, OF wf_ex_action h2 h3] obtain st' d' where
    s: "execute_action T_good False (initial_state ex_fs) ex_action = Inr st'"
      "realloc_dst (files (initial_state ex_fs)) ex_action = Inr (Some d')"
      "last_status st' = ''OK'' \<longrightarrow>
          exists (files st') d' \<and> verify_audio_ok (files st') d'
          \<and> (can_remove (files (initial_state ex_fs)) (src ex_action)
                \<longrightarrow> \<not> exists (files st') (src ex_action))"
    by blast
  have d: "d' = ex_dst" using s(2) by (simp add: ex_defs engine_defs)
  have ok: "last_status st' = ''OK''"
    using s(1) by (simp add: run_defs ex_defs engine_defs last_status_def) auto
  have cr: "can_remove (files (initial_state ex_fs)) (src ex_action)"
    by (simp add: ex_defs engine_defs can_remove_def)
  from s(3) ok cr d have "last_status st' = ''OK'' \<and> \<not> exists (files st') (src ex_action)
        \<and> exists (files st') ex_dst \<and> verify_audio_ok (files st') ex_dst" by simp
  with s(1) have "\<exists>st'. execute_action T_good False (initial_state ex_fs) ex_action = Inr st'
        \<and> last_status st' = ''OK'' \<and> \<not> exists (files st') (src ex_action)
        \<and> exists (files st') ex_dst \<and> verify_audio_ok (files st') ex_dst" by blast
  with wf_ex_action h2 h3 show ?thesis by blast
qed

text \<open>
  A source that cannot be removed: the conversion succeeds and is verified, the row says
  \<open>OK\<close>, and the source is still there.
\<close>

theorem commit_safety_counterexample:
  "\<not> isl (execute_action T_good False (initial_state ex_fs_locked) ex_action)
   \<and> last_status (projr (execute_action T_good False (initial_state ex_fs_locked) ex_action))
       = ''OK''
   \<and> exists (files (projr (execute_action T_good False (initial_state ex_fs_locked) ex_action)))
       (src ex_action)
   \<and> verify_audio_ok
       (files (projr (execute_action T_good False (initial_state ex_fs_locked) ex_action)))
       ex_dst"
  by (simp add: run_defs ex_defs engine_defs last_status_def)

text \<open>
  C2 (as amended). In Apply mode, for an action whose source is a regular file that the
  transcoder leaves as it is: a non-zero exit code gives the status \<open>ERROR\<close>; a zero exit
  code followed by a missing or unverified output gives the distinct status
  \<open>ERROR: verify\<close>. In both cases the error count grows by one and the success count
  stays, the source is retained unchanged, the transcoder has been launched exactly once
  for the action, and the partial output is gone when there was none or \<open>os.remove\<close>
  succeeds on it (when the removal fails the file system is left as the transcoder left
  it). In every case the engine goes on with the next action from the state reached.
\<close>

theorem failure_semantics:
  assumes "wf_action a"
    and "is_file (files st) (src a)"
    and "fs_lookup (snd (T (files st) (launch_cmd (files st) a))) (src a)
           = fs_lookup (files st) (src a)"
  shows "\<exists>st' d' rc fs1. execute_action T False st a = Inr st'
    \<and> realloc_dst (files st) a = Inr (Some d')
    \<and> T (files st) (launch_cmd (files st) a) = (rc, fs1)
    \<and> (rc \<noteq> 0 \<longrightarrow> last_status st' = ''ERROR'')
    \<and> (rc = 0 \<and> \<not> (exists fs1 d' \<and> verify_audio_ok fs1 d')
          \<longrightarrow> last_status st' = ''ERROR: verify'')
    \<and> (rc \<noteq> 0 \<or> \<not> (exists fs1 d' \<and> verify_audio_ok fs1 d') \<longrightarrow>
          errors st' = errors st + 1 \<and> success st' = success st
          \<and> fs_lookup (files st') (src a) = fs_lookup (files st) (src a)
          \<and> launched st' = launched st @ [(launch_cmd (files st) a, files st)]
          \<and> (\<not> exists fs1 d' \<or> can_remove fs1 d' \<longrightarrow> \<not> exists (files st') d')
          \<and> (exists fs1 d' \<and> \<not> can_remove fs1 d' \<longrightarrow> files st' = fs1))
    \<and> run_actions T False st (a # rest) = run_actions T False st' rest"
proof -
  from assms(1) obtain d d' where
    e: "dst a = Some d" "unique_target_path (files st) d = Inr d'" "\<not> exists (files st) d'"
      "execute_action T False st a
        = Inr (conclude st a (Some d') (butlast (cmd a) @ [str_of d'])
               (fst (T (files st) (butlast (cmd a) @ [str_of d'])))
               (snd (T (files st) (butlast (cmd a) @ [str_of d']))))"
    by (rule execute_action_wf)
  define c where "c = butlast (cmd a) @ [str_of d']"
  define rc where "rc = fst (T (files st) c)"
  define fs1 where "fs1 = snd (T (files st) c)"
  define st' where "st' = conclude st a (Some d') c rc fs1"
  have ex: "execute_action T False st a = Inr st'"
    using e(4) by (simp add: st'_def c_def rc_def fs1_def)
  have re: "realloc_dst (files st) a = Inr (Some d')"
    using e(1,2) by (simp add: realloc_dst_def)
  have "final_cmd a (Some d') = Inr c"
    using wf_action_realloc [OF assms(1), of "files st"] e(1,2) by (auto simp: c_def)
  with re have lc: "launch_cmd (files st) a = c" by (simp add: launch_cmd_def)
  have t: "T (files st) (launch_cmd (files st) a) = (rc, fs1)"
    by (simp add: lc rc_def fs1_def)
  have src_ex: "exists (files st) (src a)"
    using assms(2) by (auto simp: is_file_def exists_def split: option.splits)
  with e(3) have ne: "src a \<noteq> d'" by auto
  have keep: "fs_lookup fs1 (src a) = fs_lookup (files st) (src a)"
    using assms(3) by (simp add: lc fs1_def)
  have oo: "output_ok fs1 (Some d') = (exists fs1 d' \<and> verify_audio_ok fs1 d')"
    by (simp add: output_ok_def)
  have s1: "rc \<noteq> 0 \<longrightarrow> last_status st' = ''ERROR''"
    by (simp add: st'_def last_status_conclude)
  have s2: "rc = 0 \<and> \<not> (exists fs1 d' \<and> verify_audio_ok fs1 d')
      \<longrightarrow> last_status st' = ''ERROR: verify''"
    by (simp add: st'_def last_status_conclude oo)
  have s3: "rc \<noteq> 0 \<or> \<not> (exists fs1 d' \<and> verify_audio_ok fs1 d') \<longrightarrow>
          errors st' = errors st + 1 \<and> success st' = success st
          \<and> fs_lookup (files st') (src a) = fs_lookup (files st) (src a)
          \<and> launched st' = launched st @ [(launch_cmd (files st) a, files st)]
          \<and> (\<not> exists fs1 d' \<or> can_remove fs1 d' \<longrightarrow> \<not> exists (files st') d')
          \<and> (exists fs1 d' \<and> \<not> can_remove fs1 d' \<longrightarrow> files st' = fs1)"
  proof
    assume b: "rc \<noteq> 0 \<or> \<not> (exists fs1 d' \<and> verify_audio_ok fs1 d')"
    then have b': "rc \<noteq> 0 \<or> \<not> output_ok fs1 (Some d')" by (simp add: oo)
    then have f: "files st' = remove_partial fs1 (Some d')"
      by (simp add: st'_def files_conclude)
    have "errors st' = errors st + 1" "success st' = success st"
      using b' by (simp_all add: st'_def errors_conclude success_conclude)
    moreover have "fs_lookup (files st') (src a) = fs_lookup (files st) (src a)"
      using f ne keep by (simp add: fs_lookup_remove_partial)
    moreover have "launched st' = launched st @ [(launch_cmd (files st) a, files st)]"
      by (simp add: st'_def launched_conclude lc)
    moreover have "\<not> exists fs1 d' \<or> can_remove fs1 d' \<longrightarrow> \<not> exists (files st') d'"
      using f by (auto simp: exists_def fs_lookup_remove_partial)
    moreover have "exists fs1 d' \<and> \<not> can_remove fs1 d' \<longrightarrow> files st' = fs1"
      using f by (auto simp: remove_partial_def safe_remove_def can_remove_def
          split: option.splits node.splits bool.splits)
    ultimately show "errors st' = errors st + 1 \<and> success st' = success st
          \<and> fs_lookup (files st') (src a) = fs_lookup (files st) (src a)
          \<and> launched st' = launched st @ [(launch_cmd (files st) a, files st)]
          \<and> (\<not> exists fs1 d' \<or> can_remove fs1 d' \<longrightarrow> \<not> exists (files st') d')
          \<and> (exists fs1 d' \<and> \<not> can_remove fs1 d' \<longrightarrow> files st' = fs1)"
      by blast
  qed
  have s4: "run_actions T False st (a # rest) = run_actions T False st' rest"
    by (simp add: ex)
  from ex re t s1 s2 s3 s4 show ?thesis by blast
qed

theorem failure_semantics_witness:
  "wf_action ex_action \<and> is_file (files (initial_state ex_fs)) (src ex_action)
   \<and> fs_lookup (snd (T_fail (files (initial_state ex_fs))
          (launch_cmd (files (initial_state ex_fs)) ex_action))) (src ex_action)
       = fs_lookup (files (initial_state ex_fs)) (src ex_action)
   \<and> (\<exists>st'. execute_action T_fail False (initial_state ex_fs) ex_action = Inr st'
        \<and> last_status st' = ''ERROR'' \<and> errors st' = 1 \<and> success st' = 0
        \<and> exists (files st') (src ex_action) \<and> \<not> exists (files st') ex_dst
        \<and> length (launched st') = 1)"
proof -
  have h2: "is_file (files (initial_state ex_fs)) (src ex_action)"
    by (simp add: ex_defs engine_defs is_file_def)
  have h3: "fs_lookup (snd (T_fail (files (initial_state ex_fs))
          (launch_cmd (files (initial_state ex_fs)) ex_action))) (src ex_action)
       = fs_lookup (files (initial_state ex_fs)) (src ex_action)"
    by (simp add: ex_defs engine_defs launch_cmd_def Path_of_def)
  from failure_semantics [of ex_action "initial_state ex_fs" T_fail "[]",
      OF wf_ex_action h2 h3]
  obtain st' d' rc fs1 where
    s: "execute_action T_fail False (initial_state ex_fs) ex_action = Inr st'"
      "realloc_dst (files (initial_state ex_fs)) ex_action = Inr (Some d')"
      "T_fail (files (initial_state ex_fs)) (launch_cmd (files (initial_state ex_fs)) ex_action)
         = (rc, fs1)"
      "rc \<noteq> 0 \<longrightarrow> last_status st' = ''ERROR''"
      "rc \<noteq> 0 \<or> \<not> (exists fs1 d' \<and> verify_audio_ok fs1 d') \<longrightarrow>
          errors st' = errors (initial_state ex_fs) + 1
          \<and> success st' = success (initial_state ex_fs)
          \<and> fs_lookup (files st') (src ex_action)
              = fs_lookup (files (initial_state ex_fs)) (src ex_action)
          \<and> launched st' = launched (initial_state ex_fs)
              @ [(launch_cmd (files (initial_state ex_fs)) ex_action,
                  files (initial_state ex_fs))]
          \<and> (\<not> exists fs1 d' \<or> can_remove fs1 d' \<longrightarrow> \<not> exists (files st') d')"
    by blast
  have d: "d' = ex_dst" using s(2) by (simp add: ex_defs engine_defs)
  have r: "rc = 1" "fs1 = fs_write ex_fs ex_dst (File ProbeFailed False True)"
    using s(3) by (simp_all add: ex_defs engine_defs launch_cmd_def Path_of_def)
  have cr: "can_remove fs1 ex_dst"
    by (simp add: r(2) ex_defs engine_defs can_remove_def)
  have se: "exists (files (initial_state ex_fs)) (src ex_action)"
    by (simp add: ex_defs engine_defs)
  from s(4,5) r(1) cr d se
  have "last_status st' = ''ERROR'' \<and> errors st' = 1 \<and> success st' = 0
        \<and> exists (files st') (src ex_action) \<and> \<not> exists (files st') ex_dst
        \<and> length (launched st') = 1"
    by (simp add: initial_state_def exists_def)
  with s(1) have "\<exists>st'. execute_action T_fail False (initial_state ex_fs) ex_action = Inr st'
        \<and> last_status st' = ''ERROR'' \<and> errors st' = 1 \<and> success st' = 0
        \<and> exists (files st') (src ex_action) \<and> \<not> exists (files st') ex_dst
        \<and> length (launched st') = 1" by blast
  with wf_ex_action h2 h3 show ?thesis by blast
qed

text \<open>
  A failed transcode whose partial output cannot be removed: the row says \<open>ERROR\<close> and
  the partial output is still at the destination.
\<close>

theorem failure_semantics_counterexample:
  "\<not> isl (execute_action T_fail_locked False (initial_state ex_fs) ex_action)
   \<and> last_status (projr (execute_action T_fail_locked False (initial_state ex_fs) ex_action))
       = ''ERROR''
   \<and> exists (files (projr (execute_action T_fail_locked False (initial_state ex_fs) ex_action)))
       ex_dst"
  by (simp add: run_defs ex_defs engine_defs last_status_def)

section \<open>What the pipeline raises\<close>

lemma decide_actions_wf:
  "\<exists>acts. decide_actions_for_path fs s = Inr acts \<and> (\<forall>a\<in>set acts. wf_action a)"
proof (cases "lower (path_suffix s) \<in> M4A_EXTS \<or> lower (path_suffix s) \<in> FLAC_EXTS")
  case False
  then show ?thesis by (simp add: decide_actions_for_path_def)
next
  case True
  then have "path_suffix s \<noteq> []"
    by (auto simp: M4A_EXTS_def FLAC_EXTS_def dest: lower_nonempty)
  from planned_dst_total [OF this, of fs] obtain d where
    d: "planned_dst fs s = Inr d" "path_name d \<noteq> []" by blast
  then show ?thesis
    by (auto simp: decide_actions_for_path_def wf_action_def Let_def
        build_ffmpeg_cmd_convert_to_flac_def)
qed












lemmas extract_defs = extract_candidate_paths_def find_path_columns_def
  PATHLIKE_COL_KEYWORDS_def lower_def char_lower_def strip_def is_space_def
  looks_like_path_def dropna_def MUSIC_EXTS_def endswith_def Let_def ravel_def



section \<open>Candidates and extensions\<close>

lemma char_lower_dot: "char_lower x = CHR ''.'' \<longleftrightarrow> x = CHR ''.''"
  by (auto simp: char_lower_def split: option.splits if_splits)

lemma char_lower_slash: "char_lower x = CHR ''/'' \<longleftrightarrow> x = CHR ''/''"
  by (auto simp: char_lower_def split: option.splits if_splits)

lemma lower_no_dot: "CHR ''.'' \<notin> set (lower r) \<Longrightarrow> CHR ''.'' \<notin> set r"
proof
  assume n: "CHR ''.'' \<notin> set (lower r)" and i: "CHR ''.'' \<in> set r"
  from i have "char_lower (CHR ''.'') \<in> set (lower r)" by (simp add: lower_def)
  moreover have "char_lower (CHR ''.'') = CHR ''.''" by (simp add: char_lower_dot)
  ultimately show False using n by simp
qed

lemma lower_no_slash: "CHR ''/'' \<notin> set (lower r) \<Longrightarrow> CHR ''/'' \<notin> set r"
proof
  assume n: "CHR ''/'' \<notin> set (lower r)" and i: "CHR ''/'' \<in> set r"
  from i have "char_lower (CHR ''/'') \<in> set (lower r)" by (simp add: lower_def)
  moreover have "char_lower (CHR ''/'') = CHR ''/''" by (simp add: char_lower_slash)
  ultimately show False using n by simp
qed

lemma split_on_append:
  "c \<notin> set ys \<Longrightarrow>
   split_on c (xs @ ys) = butlast (split_on c xs) @ [last (split_on c xs) @ ys]"
proof (induction xs)
  case Nil
  then show ?case by (simp add: split_on_single)
next
  case (Cons x xs)
  obtain w ws where s: "split_on c xs = w # ws"
    using split_on_nonempty [of c xs] by (cases "split_on c xs") auto
  show ?case
  proof (cases "x = c")
    case True
    with Cons s show ?thesis by simp
  next
    case False
    with Cons s show ?thesis by (cases ws) auto
  qed
qed

lemma rfind_last:
  "c \<notin> set r \<Longrightarrow> rfind c (pre @ c # r) = Some (length pre)"
proof (induction pre)
  case Nil
  have "rfind c r = None" using Nil by (induction r) auto
  then show ?case by simp
next
  case (Cons x pre)
  then show ?case by simp
qed

lemma strip_idem: "strip (strip s) = strip s"
proof -
  define a where "a = dropWhile is_space s"
  define u where "u = dropWhile is_space (rev a)"
  have t: "strip s = rev u" by (simp add: strip_def a_def u_def)
  have "rev a = takeWhile is_space (rev a) @ u" by (simp add: u_def)
  then have "a = rev u @ rev (takeWhile is_space (rev a))"
    by (metis rev_append rev_rev_ident)
  then obtain rest where a: "a = rev u @ rest" by blast
  have d1: "dropWhile is_space (rev u) = rev u"
  proof (cases "rev u")
    case Nil
    then show ?thesis by simp
  next
    case (Cons x xs)
    with a have "a \<noteq> []" "hd a = x" by auto
    then have "\<not> is_space x" using hd_dropWhile [of is_space s] by (auto simp: a_def)
    with Cons show ?thesis by simp
  qed
  have d2: "dropWhile is_space u = u" by (simp add: u_def)
  show ?thesis unfolding t by (simp add: strip_def d1 d2)
qed

lemma unique_preserve_order_subset: "set (unique_preserve_order seen ps) \<subseteq> set ps"
  by (induction seen ps rule: unique_preserve_order.induct) auto

lemma looks_like_path_ext:
  "looks_like_path s \<Longrightarrow> \<exists>ext\<in>MUSIC_EXTS. endswith (lower (strip s)) ext"
  by (auto simp: looks_like_path_def Let_def split: if_splits)

lemma candidate_ext:
  assumes "c \<in> set (extract_candidate_paths df)"
  shows "\<exists>ext\<in>MUSIC_EXTS. endswith (lower c) ext"
proof -
  define paths where "paths = concat (map (\<lambda>col. map strip (filter looks_like_path
      (dropna (snd col)))) (find_path_columns df))"
  define fallback where "fallback = filter looks_like_path (map strip (ravel df))"
  have "extract_candidate_paths df
      = unique_preserve_order [] (if paths = [] then fallback else paths)"
    unfolding extract_candidate_paths_def Let_def paths_def fallback_def ..
  with assms have "c \<in> set (if paths = [] then fallback else paths)"
    using unique_preserve_order_subset [of "[]" "if paths = [] then fallback else paths"]
    by auto
  then have "c \<in> set paths \<or> c \<in> set fallback" by (auto split: if_splits)
  then show ?thesis
  proof
    assume "c \<in> set paths"
    then obtain v where "looks_like_path v" "c = strip v" by (auto simp: paths_def)
    then show ?thesis by (auto dest: looks_like_path_ext)
  next
    assume "c \<in> set fallback"
    then obtain v where "looks_like_path (strip v)" "c = strip v"
      by (auto simp: fallback_def)
    then show ?thesis using looks_like_path_ext [of "strip v"] by (simp add: strip_idem)
  qed
qed


lemma ext_shape:
  "ext \<in> MUSIC_EXTS \<Longrightarrow>
   \<exists>t. ext = CHR ''.'' # t \<and> CHR ''.'' \<notin> set t \<and> CHR ''/'' \<notin> set ext \<and> 3 \<le> length t"
  by (auto simp: MUSIC_EXTS_def)

lemma endswith_lower_split:
  assumes "endswith (lower c) ext"
  shows "\<exists>pre e. c = pre @ e \<and> lower e = ext"
proof -
  let ?n = "length c - length ext"
  have "lower (drop ?n c) = ext"
    using assms by (simp add: endswith_def lower_def drop_map)
  moreover have "c = take ?n c @ drop ?n c" by simp
  ultimately show ?thesis by blast
qed

lemma name_of_candidate:
  assumes "ext \<in> MUSIC_EXTS" and "endswith (lower c) ext"
  shows "\<exists>pre e. parts (Path_of c) \<noteq> [] \<and> path_name (Path_of c) = pre @ e \<and> lower e = ext"
proof -
  from endswith_lower_split [OF assms(2)] obtain p0 e where c: "c = p0 @ e" "lower e = ext"
    by blast
  from ext_shape [OF assms(1)] obtain t where t: "ext = CHR ''.'' # t"
    "CHR ''/'' \<notin> set ext" "3 \<le> length t" by blast
  have ns: "CHR ''/'' \<notin> set e" using c(2) t(2) lower_no_slash by blast
  have le: "4 \<le> length e"
  proof -
    have "length e = length ext" using c(2) by (auto simp: lower_def)
    with t(1,3) show ?thesis by simp
  qed
  let ?S = "split_on (CHR ''/'') p0"
  let ?L = "last ?S @ e"
  have sp: "split_on (CHR ''/'') c = butlast ?S @ [?L]"
    unfolding c(1) using ns by (rule split_on_append)
  have "4 \<le> length ?L" using le by simp
  then have l1: "?L \<noteq> []" by auto
  have l2: "?L \<noteq> ''.''"
  proof
    assume "?L = ''.''"
    then have "length ?L = length ''.''" by (rule arg_cong)
    with \<open>4 \<le> length ?L\<close> show False by simp
  qed
  from l1 l2 have ok: "?L \<noteq> [] \<and> ?L \<noteq> ''.''" ..
  have "parts (Path_of c)
      = filter (\<lambda>w. w \<noteq> [] \<and> w \<noteq> ''.'') (butlast ?S) @ [?L]"
    using ok by (simp add: Path_of_def sp)
  then have "parts (Path_of c) \<noteq> []" "path_name (Path_of c) = ?L"
    by (simp_all add: path_name_def)
  with c(2) show ?thesis by blast
qed

lemma suffix_of_name:
  assumes "ext \<in> MUSIC_EXTS" and "path_name p = pre @ e" and "lower e = ext"
  shows "(pre \<noteq> [] \<longrightarrow> path_suffix p = e) \<and> (pre = [] \<longrightarrow> path_suffix p = [])"
proof -
  from ext_shape [OF assms(1)] obtain t where t: "ext = CHR ''.'' # t"
    "CHR ''.'' \<notin> set t" "3 \<le> length t" by blast
  from assms(3) t(1) obtain y r where e: "e = y # r" "char_lower y = CHR ''.''" "lower r = t"
    by (cases e) (auto simp: lower_def)
  then have y: "y = CHR ''.''" by (simp add: char_lower_dot)
  have nd: "CHR ''.'' \<notin> set r" using e(3) t(2) lower_no_dot by blast
  have lr: "3 \<le> length r" using e(3) t(3) by (auto simp: lower_def)
  have rf: "rfind (CHR ''.'') (path_name p) = Some (length pre)"
    unfolding assms(2) e(1) y using nd by (rule rfind_last)
  have ps: "path_suffix p
      = (if 0 < length pre \<and> length pre < length (path_name p) - 1
         then drop (length pre) (path_name p) else [])"
    using rf by (simp add: path_suffix_def Let_def)
  have "length (path_name p) - 1 = length pre + length r" by (simp add: assms(2) e(1))
  moreover have "r \<noteq> []" using lr by auto
  ultimately show ?thesis using ps by (simp add: assms(2))
qed

lemma resolved_name:
  assumes "resolve_candidate sf rp fs rootdir c = Inr (Some p)" and "parts (Path_of c) \<noteq> []"
  shows "path_name p = path_name (Path_of c)"
proof -
  have ne: "path_name (Path_of c) \<noteq> []"
  proof -
    have "last (parts (Path_of c)) \<in> set (parts (Path_of c))" using assms(2) by simp
    then have "last (parts (Path_of c)) \<noteq> []" by (auto simp: Path_of_def)
    with assms(2) show ?thesis by (simp add: path_name_def)
  qed
  from assms(1) have "p = normalize_to_root c rootdir
      \<or> p = path_join rootdir (path_name (Path_of c))"
    by (auto simp: resolve_candidate_eq split: if_splits)
  then show ?thesis
  proof
    assume "p = normalize_to_root c rootdir"
    then show ?thesis using assms(2)
      by (auto simp: normalize_to_root_def path_join_def Let_def path_name_def)
  next
    assume "p = path_join rootdir (path_name (Path_of c))"
    then show ?thesis using path_join_name [OF ne, of rootdir] by (simp add: path_name_def)
  qed
qed

lemma resolved_suffix:
  assumes "c \<in> set (extract_candidate_paths df)"
    and "resolve_candidate sf rp fs rootdir c = Inr (Some p)"
  shows "lower (path_suffix p) \<in> MUSIC_EXTS
    \<or> (lower (path_name p) \<in> MUSIC_EXTS \<and> path_suffix p = [])"
proof -
  from candidate_ext [OF assms(1)] obtain ext where x: "ext \<in> MUSIC_EXTS"
    "endswith (lower c) ext" by blast
  from name_of_candidate [OF x] obtain pre e where n: "parts (Path_of c) \<noteq> []"
    "path_name (Path_of c) = pre @ e" "lower e = ext" by blast
  from resolved_name [OF assms(2) n(1)] n(2) have pn: "path_name p = pre @ e" by simp
  from suffix_of_name [OF x(1) pn n(3)] x(1) n(3) pn show ?thesis by (cases "pre = []") auto
qed


text \<open>
  C10 (as amended). Every candidate the extractor produces ends, case-insensitively, with
  one of the recognized extensions. A file resolved from a candidate has its extension in
  the recognized set, and its row is then \<open>OK\<close> or \<open>PLAN\<close>, except when the file's whole
  name is one of the extensions (such as \<open>.flac\<close>): there the suffix is empty and the row
  is the skipped-unsupported one.
\<close>

theorem candidates_recognized:
  assumes "c \<in> set (extract_candidate_paths df)"
  shows "(\<exists>ext\<in>MUSIC_EXTS. endswith (lower c) ext)
    \<and> (\<forall>p. resolve_candidate sf rp fs rootdir c = Inr (Some p) \<longrightarrow>
          lower (path_suffix p) \<in> MUSIC_EXTS
          \<or> (lower (path_name p) \<in> MUSIC_EXTS \<and> path_suffix p = []
              \<and> plan_candidate sf rp fs rootdir c
                  = Inr ((c, Some p, ''SKIP (unsupported ext: )''), [])))
    \<and> (\<forall>p. resolve_candidate sf rp fs rootdir c = Inr (Some p) \<and> lower (path_name p) \<notin> MUSIC_EXTS
          \<longrightarrow> (\<exists>acts. decide_actions_for_path fs p = Inr acts
                 \<and> plan_candidate sf rp fs rootdir c
                     = Inr ((c, Some p,
                             if acts = [] then ''OK (no fix required)''
                             else ''PLAN: '' @ join_with '', '' (map kind acts)), acts)))"
proof (intro conjI allI impI)
  show "\<exists>ext\<in>MUSIC_EXTS. endswith (lower c) ext" using assms by (rule candidate_ext)
next
  fix p assume r: "resolve_candidate sf rp fs rootdir c = Inr (Some p)"
  from resolved_suffix [OF assms r]
  show "lower (path_suffix p) \<in> MUSIC_EXTS
          \<or> (lower (path_name p) \<in> MUSIC_EXTS \<and> path_suffix p = []
              \<and> plan_candidate sf rp fs rootdir c
                  = Inr ((c, Some p, ''SKIP (unsupported ext: )''), []))"
  proof
    assume "lower (path_suffix p) \<in> MUSIC_EXTS"
    then show ?thesis ..
  next
    assume h: "lower (path_name p) \<in> MUSIC_EXTS \<and> path_suffix p = []"
    then have "lower (path_suffix p) \<notin> MUSIC_EXTS" by (simp add: lower_def MUSIC_EXTS_def)
    with r h have "plan_candidate sf rp fs rootdir c
        = Inr ((c, Some p, ''SKIP (unsupported ext: )''), [])"
      by (simp add: plan_candidate_def)
    with h show ?thesis by blast
  qed
next
  fix p assume r: "resolve_candidate sf rp fs rootdir c = Inr (Some p)
      \<and> lower (path_name p) \<notin> MUSIC_EXTS"
  with resolved_suffix [OF assms, of sf rp fs rootdir p]
  have s: "lower (path_suffix p) \<in> MUSIC_EXTS" by blast
  from decide_actions_wf [of fs p] obtain acts where
    a: "decide_actions_for_path fs p = Inr acts" by blast
  with r s have "plan_candidate sf rp fs rootdir c
      = Inr ((c, Some p,
              if acts = [] then ''OK (no fix required)''
              else ''PLAN: '' @ join_with '', '' (map kind acts)), acts)"
    by (simp add: plan_candidate_def)
  with a show "\<exists>acts. decide_actions_for_path fs p = Inr acts
                 \<and> plan_candidate sf rp fs rootdir c
                     = Inr ((c, Some p,
                             if acts = [] then ''OK (no fix required)''
                             else ''PLAN: '' @ join_with '', '' (map kind acts)), acts)"
    by blast
qed

theorem candidates_recognized_witness:
  "''t.m4a'' \<in> set (extract_candidate_paths ex_sheet)
   \<and> endswith (lower ''t.m4a'') ''.m4a''
   \<and> resolve_candidate sf_never rp_id ex_fs ex_root ''t.m4a'' = Inr (Some ex_src)
   \<and> lower (path_suffix ex_src) = ''.m4a''
   \<and> plan_candidate sf_never rp_id ex_fs ex_root ''t.m4a''
       = Inr ((''t.m4a'', Some ex_src, ''PLAN: convert_m4a''), [ex_action])"
proof -
  have h: "''t.m4a'' \<in> set (extract_candidate_paths ex_sheet)"
    by (simp add: ex_sheet_def extract_defs)
  have r: "resolve_candidate sf_never rp_id ex_fs ex_root ''t.m4a'' = Inr (Some ex_src)"
    by (simp add: resolve_defs ex_defs)
  have n: "lower (path_name ex_src) \<notin> MUSIC_EXTS"
    by (simp add: ex_src_def path_defs MUSIC_EXTS_def)
  have d: "decide_actions_for_path ex_fs ex_src = Inr [ex_action]"
    by (simp add: decide_actions_for_path_def planned_dst_def M4A_EXTS_def ex_defs path_defs
        exists_def fs_lookup_def Let_def)
  from candidates_recognized [OF h, of sf_never rp_id ex_fs ex_root] r n d
  have p: "plan_candidate sf_never rp_id ex_fs ex_root ''t.m4a''
       = Inr ((''t.m4a'', Some ex_src, ''PLAN: convert_m4a''), [ex_action])"
    by (auto simp: ex_action_def)
  have e: "endswith (lower ''t.m4a'') ''.m4a''" by (simp add: extract_defs)
  have s: "lower (path_suffix ex_src) = ''.m4a''" by (simp add: ex_src_def path_defs)
  from h e r s p show ?thesis by blast
qed

text \<open>
  A report that names a file called \<open>.flac\<close>, which exists under the root: the candidate
  is extracted and resolved, its suffix is empty, and the row is the skipped-unsupported
  one.
\<close>

theorem candidates_recognized_counterexample:
  "extract_candidate_paths ex_sheet_hidden = [''.flac'']
   \<and> resolve_candidate sf_never rp_id ex_fs_hidden ex_root ''.flac'' = Inr (Some ex_hidden)
   \<and> lower (path_suffix ex_hidden) \<notin> MUSIC_EXTS
   \<and> plan_from_xlsx ex_reader_hidden sf_never rp_id ex_fs_hidden ex_xlsx ex_root
       = Inr ([(''.flac'', Some ex_hidden, ''SKIP (unsupported ext: )'')], [])"
proof -
  have c: "extract_candidate_paths ex_sheet_hidden = [''.flac'']"
    by (simp add: ex_sheet_hidden_def extract_defs)
  have r: "resolve_candidate sf_never rp_id ex_fs_hidden ex_root ''.flac'' = Inr (Some ex_hidden)"
    by (simp add: resolve_defs ex_fs_hidden_def ex_hidden_def ex_root_def ex_xlsx_def)
  have s: "path_suffix ex_hidden = []" by (simp add: ex_hidden_def path_defs)
  then have n: "lower (path_suffix ex_hidden) \<notin> MUSIC_EXTS"
    by (simp add: lower_def MUSIC_EXTS_def)
  have "plan_candidate sf_never rp_id ex_fs_hidden ex_root ''.flac''
      = Inr ((''.flac'', Some ex_hidden, ''SKIP (unsupported ext: )''), [])"
    using r n s by (simp add: plan_candidate_def)
  then have "plan_from_xlsx ex_reader_hidden sf_never rp_id ex_fs_hidden ex_xlsx ex_root
       = Inr ([(''.flac'', Some ex_hidden, ''SKIP (unsupported ext: )'')], [])"
    using c by (simp add: plan_from_xlsx_def read_all_sheets_def ex_reader_hidden_def)
  with c r n show ?thesis by blast
qed

end
